theory Spec2Isabelle
  imports Complex_Main "HOL-Library.List_Lexorder" "HOL-Library.Char_ord"
begin

section \<open>Python values used by the alert engine of bot.py\<close>

text \<open>
  A Python float is an IEEE binary64 value. Every finite one is a rational number, so a
  float is modelled as a rational, one of the two infinities, or NaN. Comparisons of
  floats are exact, and a comparison with NaN is false. Rounding is not modelled: the
  rationals are a superset of the finite floats.
\<close>

datatype pyfloat = Fin rat | PInf | NInf | NaN

fun py_le :: "pyfloat \<Rightarrow> pyfloat \<Rightarrow> bool" where
  "py_le NaN y = False"
| "py_le x NaN = False"
| "py_le NInf y = True"
| "py_le x PInf = True"
| "py_le (Fin x) (Fin y) = (x \<le> y)"
| "py_le x y = False"

definition py_ge :: "pyfloat \<Rightarrow> pyfloat \<Rightarrow> bool" where
  "py_ge x y = py_le y x"

text \<open>Python's \<open>==\<close> on floats: NaN is equal to nothing, itself included.\<close>

definition py_eq :: "pyfloat \<Rightarrow> pyfloat \<Rightarrow> bool" where
  "py_eq x y = (x \<noteq> NaN \<and> x = y)"

text \<open>The threshold the specification asks for: a positive finite number.\<close>

fun positive_finite :: "pyfloat \<Rightarrow> bool" where
  "positive_finite (Fin q) = (0 < q)"
| "positive_finite x = False"

text \<open>
  Exceptions are values. Every handler of the alert engine is \<open>except Exception\<close>, so the
  kind of an exception never decides a branch; the kinds are kept for reading.
\<close>

datatype error = ValueError | OSError | JSONDecodeError | NetworkError | TelegramError

subsection \<open>Strings\<close>

text \<open>
  A text is a list of characters. \<open>str.upper\<close>, \<open>str.strip\<close> and \<open>str.split\<close> are
  modelled on ASCII: the letters a to z are the cased characters, and the white space
  is the ASCII white space of Python (tab, line feed, vertical tab, form feed, carriage
  return, the four separators 28 to 31, and the space).
\<close>

definition upper_char :: "char \<Rightarrow> char" where
  "upper_char c =
     (case map_of (zip ''abcdefghijklmnopqrstuvwxyz'' ''ABCDEFGHIJKLMNOPQRSTUVWXYZ'') c of
        None \<Rightarrow> c
      | Some d \<Rightarrow> d)"

definition upper :: "string \<Rightarrow> string" where
  "upper s = map upper_char s"

definition is_space :: "char \<Rightarrow> bool" where
  "is_space c = (let n = (of_char c :: nat) in (9 \<le> n \<and> n \<le> 13) \<or> (28 \<le> n \<and> n \<le> 32))"

definition strip :: "string \<Rightarrow> string" where
  "strip s = rev (dropWhile is_space (rev (dropWhile is_space s)))"

text \<open>\<open>s.replace(",", ".")\<close>\<close>

definition replace_comma :: "string \<Rightarrow> string" where
  "replace_comma s = map (\<lambda>c. if c = CHR '','' then CHR ''.'' else c) s"

text \<open>
  \<open>s.split()\<close>: the maximal runs of characters that are not white space, in order.
  \<open>split_from w s\<close> reads \<open>s\<close> with the word \<open>w\<close> (reversed) under construction.
\<close>

fun split_from :: "string \<Rightarrow> string \<Rightarrow> string list" where
  "split_from w [] = (if w = [] then [] else [rev w])"
| "split_from w (c # cs) =
     (if is_space c then (if w = [] then split_from [] cs else rev w # split_from [] cs)
      else split_from (c # w) cs)"

definition split :: "string \<Rightarrow> string list" where
  "split s = split_from [] s"

subsection \<open>The built-in float() on a text\<close>

text \<open>
  Python's grammar for \<open>float(s)\<close>, on a text without surrounding white space:
  an optional sign, then \<open>inf\<close>, \<open>infinity\<close> or \<open>nan\<close> in any case, or a decimal
  number: digits (single underscores allowed between digits), an optional point and
  fraction, with at least one digit part, and an optional exponent
  \<open>e [sign] digits\<close>. \<open>None\<close> stands for the ValueError of any other text. The value
  of a decimal number is its exact rational value.
\<close>

definition is_digit :: "char \<Rightarrow> bool" where
  "is_digit c = (c \<in> set ''0123456789'')"

definition digit_val :: "char \<Rightarrow> nat" where
  "digit_val c = of_char c - 48"

fun digitpart_ok :: "string \<Rightarrow> bool" where
  "digitpart_ok [] = False"
| "digitpart_ok [c] = is_digit c"
| "digitpart_ok (c # d # cs) =
     (is_digit c \<and> (if d = CHR ''_'' then digitpart_ok cs else digitpart_ok (d # cs)))"

definition digits_val :: "string \<Rightarrow> nat" where
  "digits_val s = fold (\<lambda>c n. 10 * n + digit_val c) (filter is_digit s) 0"

definition split_sign :: "string \<Rightarrow> bool \<times> string" where
  "split_sign s =
     (case s of
        [] \<Rightarrow> (False, s)
      | c # cs \<Rightarrow> if c = CHR ''-'' then (True, cs) else if c = CHR ''+'' then (False, cs) else (False, s))"

definition mantissa_ok :: "string \<Rightarrow> string \<Rightarrow> bool" where
  "mantissa_ok ip dotfp =
     (if dotfp = [] then digitpart_ok ip
      else (ip = [] \<or> digitpart_ok ip) \<and> (tl dotfp = [] \<or> digitpart_ok (tl dotfp))
           \<and> \<not> (ip = [] \<and> tl dotfp = []))"

definition exponent :: "string \<Rightarrow> int option" where
  "exponent rest =
     (if rest = [] then Some 0
      else let (neg, ds) = split_sign (tl rest)
           in if digitpart_ok ds then Some (if neg then - int (digits_val ds) else int (digits_val ds))
              else None)"

definition decimal :: "string \<Rightarrow> rat option" where
  "decimal s =
     (let mant = takeWhile (\<lambda>c. c \<noteq> CHR ''E'') s;
          rest = dropWhile (\<lambda>c. c \<noteq> CHR ''E'') s;
          ip = takeWhile (\<lambda>c. c \<noteq> CHR ''.'') mant;
          dotfp = dropWhile (\<lambda>c. c \<noteq> CHR ''.'') mant
      in if \<not> mantissa_ok ip dotfp then None
         else case exponent rest of
                None \<Rightarrow> None
              | Some e \<Rightarrow>
                  Some (of_nat (digits_val (ip @ tl dotfp))
                        / 10 ^ length (filter is_digit (tl dotfp))
                        * (if 0 \<le> e then 10 ^ nat e else 1 / 10 ^ nat (- e))))"

definition py_float :: "string \<Rightarrow> pyfloat option" where
  "py_float s =
     (let (neg, body) = split_sign (upper s)
      in if body = ''INF'' \<or> body = ''INFINITY'' then Some (if neg then NInf else PInf)
         else if body = ''NAN'' then Some NaN
         else case decimal body of
                None \<Rightarrow> None
              | Some q \<Rightarrow> Some (Fin (if neg then - q else q)))"

section \<open>Alert input (bot.py, parse\_alert\_input)\<close>

definition COIN_IDS :: "(string \<times> string) list" where
  "COIN_IDS = [(''BTC'', ''bitcoin''), (''ETH'', ''ethereum''), (''SOL'', ''solana''), (''USDT'', ''tether'')]"

definition FX_PAIRS :: "string list" where
  "FX_PAIRS = [''USDUAH'', ''EURUAH'']"

definition parse_alert_input :: "string \<Rightarrow> (string \<times> string \<times> pyfloat) option" where
  "parse_alert_input text =
     (if text = [] then None
      else
        let s = replace_comma (upper (strip text));
            parts = split s;
            parts = (if 4 \<le> length parts \<and> parts ! 0 \<in> {''USD'', ''EUR''} \<and> parts ! 1 = ''UAH''
                     then (parts ! 0 @ parts ! 1) # drop 2 parts else parts)
        in case parts of
             [symbol, direction, target_s] \<Rightarrow>
               if direction \<notin> {''ABOVE'', ''BELOW''} then None
               else (case py_float target_s of
                       None \<Rightarrow> None
                     | Some target \<Rightarrow>
                         if symbol \<in> fst ` set COIN_IDS then Some (symbol, direction, target)
                         else if symbol \<in> set FX_PAIRS then Some (symbol, direction, target)
                         else None)
           | _ \<Rightarrow> None)"


section \<open>The alert store (bot.py, JSON storage helpers)\<close>

text \<open>
  An alert is the dictionary that \<open>add_alert\<close> writes: six keys, with the types below.
  The store is the file \<open>data/alerts.json\<close>. What the file holds after
  \<open>json.loads\<close> is a list of alerts or a value of another shape; the loaders only test
  whether it is a list. A file is missing, or it exists and reading or parsing it
  raises, or it holds a JSON value.
\<close>

record alert =
  user_id :: int
  symbol :: string
  direction :: string
  target :: pyfloat
  active :: bool
  created_at :: string

datatype json = JList "alert list" | JDict | JStr string | JNum pyfloat | JBool bool | JNull

datatype file_state = Missing | Unreadable | Holds json

text \<open>
  What the disk does at a write: it takes the data, or the write raises and leaves the
  file in some state (unchanged when the file could not be opened, torn when the write
  stopped half way).
\<close>

datatype write_outcome = WriteOk | WriteFails file_state

definition path_exists :: "file_state \<Rightarrow> bool" where
  "path_exists path = (path \<noteq> Missing)"

text \<open>\<open>json.loads(path.read_text(encoding="utf-8"))\<close>\<close>

fun read_json :: "file_state \<Rightarrow> error + json" where
  "read_json Missing = Inl OSError"
| "read_json Unreadable = Inl JSONDecodeError"
| "read_json (Holds data) = Inr data"

definition safe_read_json :: "file_state \<Rightarrow> json \<Rightarrow> json" where
  "safe_read_json path dflt =
     (if \<not> path_exists path then dflt
      else case read_json path of Inl e \<Rightarrow> dflt | Inr data \<Rightarrow> data)"

text \<open>\<open>path.parent.mkdir(...); path.write_text(json.dumps(data, ...))\<close>\<close>

fun write_json :: "write_outcome \<Rightarrow> json \<Rightarrow> file_state \<Rightarrow> (error + unit) \<times> file_state" where
  "write_json WriteOk data path = (Inr (), Holds data)"
| "write_json (WriteFails left) data path = (Inl OSError, left)"

text \<open>The \<open>try\<close> of \<open>_safe_write_json\<close>: \<open>except Exception: pass\<close>.\<close>

definition safe_write_json :: "write_outcome \<Rightarrow> json \<Rightarrow> file_state \<Rightarrow> (error + unit) \<times> file_state" where
  "safe_write_json w data path =
     (case write_json w data path of
        (Inl e, path') \<Rightarrow> (Inr (), path')
      | (Inr u, path') \<Rightarrow> (Inr u, path'))"

definition load_alerts :: "file_state \<Rightarrow> alert list" where
  "load_alerts path = (case safe_read_json path (JList []) of JList items \<Rightarrow> items | _ \<Rightarrow> [])"

definition save_alerts :: "write_outcome \<Rightarrow> alert list \<Rightarrow> file_state \<Rightarrow> file_state" where
  "save_alerts w items path = snd (safe_write_json w (JList items) path)"

section \<open>The user's operations (bot.py, Alerts)\<close>

text \<open>\<open>now\<close> is \<open>datetime.utcnow().isoformat()\<close> at the call.\<close>

definition add_alert :: "write_outcome \<Rightarrow> string \<Rightarrow> int \<Rightarrow> string \<Rightarrow> string \<Rightarrow> pyfloat \<Rightarrow> file_state \<Rightarrow> file_state" where
  "add_alert w now uid symb dir tgt path =
     (let items = load_alerts path;
          items = items @ [\<lparr>user_id = uid, symbol = upper symb, direction = upper dir,
                            target = tgt, active = True, created_at = now\<rparr>]
      in save_alerts w items path)"

definition list_alerts :: "int \<Rightarrow> file_state \<Rightarrow> alert list" where
  "list_alerts uid path = filter (\<lambda>a. user_id a = uid) (load_alerts path)"

text \<open>
  \<open>idx\<close> is a Python int, counted from 0. \<open>user_items\<close> are the positions in the whole
  collection of the alerts of this user.
\<close>

definition deactivate_alert :: "write_outcome \<Rightarrow> int \<Rightarrow> int \<Rightarrow> file_state \<Rightarrow> bool \<times> file_state" where
  "deactivate_alert w uid idx path =
     (let items = load_alerts path;
          user_items = filter (\<lambda>i. user_id (items ! i) = uid) [0..<length items]
      in if idx < 0 \<or> int (length user_items) \<le> idx then (False, path)
         else let real_i = user_items ! nat idx;
                  items = items[real_i := (items ! real_i)\<lparr>active := False\<rparr>]
              in (True, save_alerts w items path))"

text \<open>
  The handler of the message \<open>off N\<close>: \<open>N\<close> matches \<open>\d+\<close>, and the handler calls
  \<open>deactivate_alert\<close> with \<open>int(N) - 1\<close>. This is the operation \<open>deactivate(owner, k)\<close>
  of the specification, with its ordinal counted from 1.
\<close>

definition alert_off :: "write_outcome \<Rightarrow> int \<Rightarrow> nat \<Rightarrow> file_state \<Rightarrow> bool \<times> file_state" where
  "alert_off w uid n path = deactivate_alert w uid (int n - 1) path"

text \<open>
  The handler of the text typed after "Add alert". \<open>cancel\<close> is the test for the
  words that leave the dialogue (\<open>menu\<close>, \<open>cancel\<close>, the texts of the menu buttons).
\<close>

definition alert_input :: "(string \<Rightarrow> bool) \<Rightarrow> write_outcome \<Rightarrow> string \<Rightarrow> int \<Rightarrow> string \<Rightarrow> file_state \<Rightarrow> file_state" where
  "alert_input cancel w now uid text path =
     (let q = strip text
      in if cancel q then path
         else case parse_alert_input q of
                None \<Rightarrow> path
              | Some (symb, dir, tgt) \<Rightarrow> add_alert w now uid symb dir tgt path)"

section \<open>The background checker (bot.py, alerts\_checker)\<close>

text \<open>
  What a cycle does to the outside is recorded as a list of events, in order: a call of
  \<open>get_symbol_price\<close>, a call of \<open>bot.send_message\<close> that returned or raised, a call
  of \<open>save_alerts\<close>. A notification is the content of the message: the user, and the
  symbol, direction, target and current price that the text is formatted from.
\<close>

datatype notification =
  Notification (n_user: int) (n_symbol: string) (n_direction: string) (n_target: pyfloat) (n_price: pyfloat)

datatype event = Fetched string | Sent notification | SendRaised notification | Saved "alert list"

text \<open>
  The surroundings of one cycle: the answers of the two price services, whether the
  message sent for the alert at a given position of the collection is delivered or
  raises, and what the disk does at the write.
\<close>

record env =
  get_crypto_price :: "string \<Rightarrow> string \<Rightarrow> error + pyfloat option"
  get_nbu_rate :: "string \<Rightarrow> error + pyfloat option"
  send_message :: "nat \<Rightarrow> error + unit"
  disk :: write_outcome

definition get_symbol_price :: "env \<Rightarrow> string \<Rightarrow> error + pyfloat option" where
  "get_symbol_price e symbol0 =
     (let symbol = upper symbol0
      in case map_of COIN_IDS symbol of
           Some coin_id \<Rightarrow> get_crypto_price e coin_id ''usd''
         | None \<Rightarrow>
             if symbol = ''USDUAH'' then get_nbu_rate e ''USD''
             else if symbol = ''EURUAH'' then get_nbu_rate e ''EUR''
             else Inr None)"

text \<open>
  The \<open>try\<close> of the first loop: the price, or None when the service has none or the call
  raised.
\<close>

definition try_get_symbol_price :: "env \<Rightarrow> string \<Rightarrow> pyfloat option" where
  "try_get_symbol_price e symb = (case get_symbol_price e symb of Inl err \<Rightarrow> None | Inr p \<Rightarrow> p)"

text \<open>
  The first loop, over the sorted symbols: it fills the dictionary \<open>prices\<close>. The empty
  symbol is skipped (\<open>if not sym: continue\<close>).
\<close>

fun fetch_prices :: "env \<Rightarrow> string list \<Rightarrow> (string \<rightharpoonup> pyfloat option) \<Rightarrow> (string \<rightharpoonup> pyfloat option) \<times> event list" where
  "fetch_prices e [] prices = (prices, [])"
| "fetch_prices e (symb # syms) prices =
     (if symb = [] then fetch_prices e syms prices
      else let p = try_get_symbol_price e symb;
               (prices', evs) = fetch_prices e syms (prices(symb \<mapsto> p))
           in (prices', Fetched symb # evs))"

text \<open>\<open>prices.get(symb)\<close>: None for a missing key and for a key that holds None.\<close>

definition prices_get :: "(string \<rightharpoonup> pyfloat option) \<Rightarrow> string \<Rightarrow> pyfloat option" where
  "prices_get prices symb = (case prices symb of None \<Rightarrow> None | Some p \<Rightarrow> p)"

definition hit :: "string \<Rightarrow> pyfloat \<Rightarrow> pyfloat \<Rightarrow> bool" where
  "hit dir cur tgt = ((dir = ''ABOVE'' \<and> py_ge cur tgt) \<or> (dir = ''BELOW'' \<and> py_le cur tgt))"

text \<open>
  The body of the second loop up to the send: None when the alert is passed over
  (\<open>continue\<close>, or no hit), the notification when it fires.
\<close>

definition check_one :: "(string \<rightharpoonup> pyfloat option) \<Rightarrow> alert \<Rightarrow> notification option" where
  "check_one prices a =
     (if \<not> active a then None
      else let uid = user_id a; symb = upper (symbol a); dir = upper (direction a); tgt = target a
           in case prices_get prices symb of
                None \<Rightarrow> None
              | Some cur \<Rightarrow> if hit dir cur tgt then Some (Notification uid symb dir tgt cur) else None)"

text \<open>
  The second loop. On a hit the alert is set inactive in the collection in memory,
  \<open>changed\<close> becomes true and the message is sent; a send that raises ends the loop with
  the exception, and the collection in memory is lost. The result is the events, and
  the exception or the collection with \<open>changed\<close>.
\<close>

definition put_item :: "alert \<Rightarrow> bool \<Rightarrow> error + alert list \<times> bool \<Rightarrow> error + alert list \<times> bool" where
  "put_item a fired r =
     (case r of Inl err \<Rightarrow> Inl err | Inr (items, changed) \<Rightarrow> Inr (a # items, fired \<or> changed))"

fun check_alerts :: "(string \<rightharpoonup> pyfloat option) \<Rightarrow> (nat \<Rightarrow> error + unit) \<Rightarrow> alert list \<Rightarrow> event list \<times> (error + alert list \<times> bool)" where
  "check_alerts prices send [] = ([], Inr ([], False))"
| "check_alerts prices send (a # rest) =
     (case check_one prices a of
        None \<Rightarrow>
          (let (evs, r) = check_alerts prices (send \<circ> Suc) rest
           in (evs, put_item a False r))
      | Some n \<Rightarrow>
          (case send 0 of
             Inl err \<Rightarrow> ([SendRaised n], Inl err)
           | Inr u \<Rightarrow>
               (let (evs, r) = check_alerts prices (send \<circ> Suc) rest
                in (Sent n # evs, put_item (a\<lparr>active := False\<rparr>) True r))))"

text \<open>
  One pass of the body of \<open>while True\<close>. The \<open>try\<close> around the body swallows the
  exception of a send, and with it the write.
\<close>

definition active_symbols :: "alert list \<Rightarrow> string list" where
  "active_symbols items = sort (remdups (map symbol (filter active items)))"

definition alerts_checker_cycle :: "env \<Rightarrow> file_state \<Rightarrow> event list \<times> file_state" where
  "alerts_checker_cycle e path =
     (let items = load_alerts path;
          symbols = active_symbols items;
          (prices, fetches) = fetch_prices e symbols Map.empty
      in case check_alerts prices (send_message e) items of
           (sends, Inl err) \<Rightarrow> (fetches @ sends, path)
         | (sends, Inr (items', changed)) \<Rightarrow>
             if changed then (fetches @ sends @ [Saved items'], save_alerts (disk e) items' path)
             else (fetches @ sends, path))"

text \<open>The loop, run for as many cycles as there are surroundings in the list.\<close>

fun alerts_checker :: "env list \<Rightarrow> file_state \<Rightarrow> event list \<times> file_state" where
  "alerts_checker [] path = ([], path)"
| "alerts_checker (e # es) path =
     (let (evs, path') = alerts_checker_cycle e path;
          (evs', path'') = alerts_checker es path'
      in (evs @ evs', path''))"


section \<open>Sample data\<close>

text \<open>Concrete alerts and surroundings, on which the properties below are evaluated.\<close>

definition mk_alert :: "int \<Rightarrow> string \<Rightarrow> string \<Rightarrow> pyfloat \<Rightarrow> bool \<Rightarrow> alert" where
  "mk_alert uid symb dir tgt act =
     \<lparr>user_id = uid, symbol = symb, direction = dir, target = tgt, active = act, created_at = ''2024-01-01T00:00:00''\<rparr>"

text \<open>
  Surroundings in which every coin costs \<open>p\<close>, the bank has no rate, the disk takes every
  write, and every message is delivered, or every message but the one for the alert at
  position \<open>k\<close>.
\<close>

definition calm_env :: "pyfloat option \<Rightarrow> env" where
  "calm_env p =
     \<lparr>get_crypto_price = (\<lambda>coin_id vs. Inr p), get_nbu_rate = (\<lambda>code. Inr None),
      send_message = (\<lambda>i. Inr ()), disk = WriteOk\<rparr>"

definition blocked_env :: "pyfloat option \<Rightarrow> nat \<Rightarrow> env" where
  "blocked_env p k =
     \<lparr>get_crypto_price = (\<lambda>coin_id vs. Inr p), get_nbu_rate = (\<lambda>code. Inr None),
      send_message = (\<lambda>i. if i = k then Inl TelegramError else Inr ()), disk = WriteOk\<rparr>"

definition three_alerts :: "alert list" where
  "three_alerts =
     [mk_alert 7 ''BTC'' ''ABOVE'' (Fin 65000) True,
      mk_alert 9 ''ETH'' ''BELOW'' (Fin 3000) True,
      mk_alert 7 ''SOL'' ''ABOVE'' (Fin 200) True]"

definition two_buyers :: "alert list" where
  "two_buyers =
     [mk_alert 1 ''BTC'' ''ABOVE'' (Fin 65000) True,
      mk_alert 2 ''BTC'' ''ABOVE'' (Fin 65000) True,
      mk_alert 3 ''ETH'' ''BELOW'' (Fin 70000) True]"

definition coin_and_rate :: "alert list" where
  "coin_and_rate =
     [mk_alert 1 ''BTC'' ''ABOVE'' (Fin 65000) True,
      mk_alert 2 ''USDUAH'' ''ABOVE'' (Fin 42) True]"

definition shared_symbol :: "alert list" where
  "shared_symbol =
     [mk_alert 1 ''BTC'' ''ABOVE'' (Fin 65000) True,
      mk_alert 2 ''BTC'' ''BELOW'' (Fin 100) True,
      mk_alert 3 ''ETH'' ''ABOVE'' (Fin 1) False]"

text \<open>The ASCII words among those that leave the dialogue of "Add alert".\<close>

definition cancel_words :: "string \<Rightarrow> bool" where
  "cancel_words q = (upper q \<in> {''MENU'', ''CANCEL''})"

section \<open>Predicates of the properties\<close>

text \<open>A store whose content is not a list of alerts: missing, unreadable, or of another shape.\<close>

fun not_a_list :: "file_state \<Rightarrow> bool" where
  "not_a_list Missing = True"
| "not_a_list Unreadable = True"
| "not_a_list (Holds (JList items)) = False"
| "not_a_list (Holds data) = True"

text \<open>
  The positions in the collection of the alerts of a user, in order: the alert of
  ordinal \<open>k\<close> of the user is at position \<open>positions_of uid items ! (k - 1)\<close>.
\<close>

definition positions_of :: "int \<Rightarrow> alert list \<Rightarrow> nat list" where
  "positions_of uid items = filter (\<lambda>i. user_id (items ! i) = uid) [0..<length items]"

text \<open>The kinds of events, and the symbols fetched and the notifications in a list of events.\<close>

fun is_fetch :: "event \<Rightarrow> bool" where
  "is_fetch (Fetched s) = True"
| "is_fetch ev = False"

fun is_send :: "event \<Rightarrow> bool" where
  "is_send (Sent n) = True"
| "is_send (SendRaised n) = True"
| "is_send ev = False"

fun is_save :: "event \<Rightarrow> bool" where
  "is_save (Saved items) = True"
| "is_save ev = False"

fun fetched_of :: "event \<Rightarrow> string list" where
  "fetched_of (Fetched s) = [s]"
| "fetched_of ev = []"

definition fetched :: "event list \<Rightarrow> string list" where
  "fetched evs = concat (map fetched_of evs)"

fun notified_of :: "event \<Rightarrow> notification list" where
  "notified_of (Sent n) = [n]"
| "notified_of (SendRaised n) = [n]"
| "notified_of ev = []"

definition notified :: "event list \<Rightarrow> notification list" where
  "notified evs = concat (map notified_of evs)"

text \<open>What the second loop does to an alert in memory: inactive when it fires, else as it was.\<close>

definition fire :: "(string \<rightharpoonup> pyfloat option) \<Rightarrow> alert \<Rightarrow> alert" where
  "fire prices a = (case check_one prices a of None \<Rightarrow> a | Some n \<Rightarrow> a\<lparr>active := False\<rparr>)"

text \<open>The dictionary \<open>prices\<close> of a cycle on a collection.\<close>

definition cycle_prices :: "env \<Rightarrow> alert list \<Rightarrow> (string \<rightharpoonup> pyfloat option)" where
  "cycle_prices e items = fst (fetch_prices e (active_symbols items) Map.empty)"

section \<open>Properties\<close>

subsection \<open>The store\<close>

lemma load_alerts_not_a_list: "not_a_list path \<Longrightarrow> load_alerts path = []"
  by (cases path rule: not_a_list.cases)
     (simp_all add: load_alerts_def safe_read_json_def path_exists_def)

lemma load_alerts_Holds [simp]: "load_alerts (Holds (JList items)) = items"
  by (simp add: load_alerts_def safe_read_json_def path_exists_def)

lemma save_alerts_WriteOk [simp]: "save_alerts WriteOk items path = Holds (JList items)"
  by (simp add: save_alerts_def safe_write_json_def)

lemma cycle_no_alerts: "load_alerts path = [] \<Longrightarrow> alerts_checker_cycle e path = ([], path)"
  by (simp add: alerts_checker_cycle_def active_symbols_def)

text \<open>
  C8. When the store file is missing, cannot be read or parsed, or holds something that
  is not a list, \<open>load_alerts\<close> returns the empty list (it has no exception to raise:
  both failures of the read end in the default), and a cycle of the checker does
  nothing: no fetch, no message, no write, the file as it was. A write that fails is
  swallowed: \<open>_safe_write_json\<close> returns normally whatever the disk does.
\<close>

theorem broken_store_is_empty:
  assumes "not_a_list path"
  shows "load_alerts path = [] \<and> list_alerts uid path = []
         \<and> alerts_checker_cycle e path = ([], path)
         \<and> fst (safe_write_json w data path') = Inr ()"
proof -
  have "load_alerts path = []"
    using assms by (rule load_alerts_not_a_list)
  moreover from this have "list_alerts uid path = []"
    by (simp add: list_alerts_def)
  moreover have "alerts_checker_cycle e path = ([], path)"
    using assms by (simp add: cycle_no_alerts load_alerts_not_a_list)
  moreover have "fst (safe_write_json w data path') = Inr ()"
    by (cases w) (simp_all add: safe_write_json_def)
  ultimately show ?thesis by simp
qed

theorem broken_store_is_empty_witness:
  "not_a_list Unreadable
   \<and> load_alerts Unreadable = [] \<and> list_alerts 7 Unreadable = []
   \<and> alerts_checker_cycle (calm_env None) Unreadable = ([], Unreadable)
   \<and> fst (safe_write_json (WriteFails Unreadable) (JList []) Missing) = Inr ()"
  using broken_store_is_empty [of Unreadable 7 "calm_env None" "WriteFails Unreadable" "JList []" Missing]
  by simp

subsection \<open>Positions of the alerts of a user\<close>

lemma positions_Cons:
  "filter (\<lambda>i. P ((x # xs) ! i)) [0..<length (x # xs)] =
     (if P x then [0] else []) @ map Suc (filter (\<lambda>i. P (xs ! i)) [0..<length xs])"
proof -
  have "[0..<Suc (length xs)] = 0 # [Suc 0..<Suc (length xs)]"
    by (rule upt_conv_Cons) simp
  then have "[0..<length (x # xs)] = 0 # map Suc [0..<length xs]"
    by (simp only: map_Suc_upt list.size(4) One_nat_def add_Suc_right add_0_right)
  then show ?thesis
    by (simp add: filter_map comp_def)
qed

lemma positions_length:
  "length (filter (\<lambda>i. P (xs ! i)) [0..<length xs]) = length (filter P xs)"
proof (induction xs)
  case Nil
  then show ?case by simp
next
  case (Cons x xs)
  then show ?case
    unfolding positions_Cons by simp
qed

lemma positions_in_range:
  assumes "j < length (filter (\<lambda>i. P (xs ! i)) [0..<length xs])"
  shows "filter (\<lambda>i. P (xs ! i)) [0..<length xs] ! j < length xs
         \<and> P (xs ! (filter (\<lambda>i. P (xs ! i)) [0..<length xs] ! j))"
proof -
  have "filter (\<lambda>i. P (xs ! i)) [0..<length xs] ! j \<in> set (filter (\<lambda>i. P (xs ! i)) [0..<length xs])"
    using assms by (rule nth_mem)
  then show ?thesis by simp
qed

lemma filter_update_at_position:
  assumes "j < length (filter (\<lambda>i. P (xs ! i)) [0..<length xs])" and "P y"
  shows "filter P (xs[filter (\<lambda>i. P (xs ! i)) [0..<length xs] ! j := y]) = (filter P xs)[j := y]"
  using assms
proof (induction xs arbitrary: j)
  case Nil
  then show ?case by simp
next
  case (Cons x xs)
  show ?case
  proof (cases "P x")
    case True
    show ?thesis
    proof (cases j)
      case 0
      then show ?thesis
        unfolding positions_Cons using True Cons.prems(2) by simp
    next
      case (Suc j')
      then have "j' < length (filter (\<lambda>i. P (xs ! i)) [0..<length xs])"
        using Cons.prems(1) True unfolding positions_Cons by simp
      then show ?thesis
        unfolding positions_Cons using True Suc Cons.IH [of j'] Cons.prems(2) by simp
    qed
  next
    case False
    then have "j < length (filter (\<lambda>i. P (xs ! i)) [0..<length xs])"
      using Cons.prems(1) unfolding positions_Cons by simp
    then show ?thesis
      unfolding positions_Cons using False Cons.IH [of j] Cons.prems(2) by simp
  qed
qed

lemma filter_update_other:
  assumes "p < length xs" and "\<not> Q (xs ! p)" and "\<not> Q y"
  shows "filter Q (xs[p := y]) = filter Q xs"
  using assms
proof (induction xs arbitrary: p)
  case Nil
  then show ?case by simp
next
  case (Cons x xs)
  then show ?case by (cases p) simp_all
qed

lemma positions_update_same_key:
  assumes "f y = f (xs ! p)"
  shows "filter (\<lambda>i. f (xs[p := y] ! i) = u) [0..<length (xs[p := y])]
         = filter (\<lambda>i. f (xs ! i) = u) [0..<length xs]"
proof -
  have "f (xs[p := y] ! i) = f (xs ! i)" if "i < length xs" for i
    using that assms by (cases "i = p") simp_all
  then show ?thesis
    by (auto intro: filter_cong)
qed

lemmas owner_positions_length = positions_length [where P = "\<lambda>a. user_id a = uid" for uid]

lemma length_positions_of: "length (positions_of uid items) = length (filter (\<lambda>a. user_id a = uid) items)"
  by (simp add: positions_of_def owner_positions_length)

lemma positions_of_update:
  "user_id y = user_id (items ! p) \<Longrightarrow> positions_of u (items[p := y]) = positions_of u items"
  unfolding positions_of_def by (rule positions_update_same_key)

lemma filter_eq_map_positions:
  "filter P xs = map ((!) xs) (filter (\<lambda>i. P (xs ! i)) [0..<length xs])"
proof -
  have "filter P (map ((!) xs) [0..<length xs]) = map ((!) xs) (filter (\<lambda>i. P (xs ! i)) [0..<length xs])"
    by (simp add: filter_map comp_def)
  then show ?thesis
    by (simp add: map_nth)
qed

lemma deactivate_alert_out_of_range:
  assumes "idx < 0 \<or> int (length (list_alerts uid path)) \<le> idx"
  shows "deactivate_alert w uid idx path = (False, path)"
  using assms
  by (simp add: deactivate_alert_def list_alerts_def owner_positions_length Let_def)

lemma alert_off_out_of_range:
  assumes "k = 0 \<or> length (list_alerts uid path) < k"
  shows "alert_off w uid k path = (False, path)"
proof -
  from assms have "int k - 1 < 0 \<or> int (length (list_alerts uid path)) \<le> int k - 1"
    by auto
  then show ?thesis
    unfolding alert_off_def by (rule deactivate_alert_out_of_range)
qed

lemma alert_off_in_range:
  assumes "1 \<le> k" and "k \<le> length (list_alerts uid path)"
  shows "\<exists>p < length (load_alerts path).
           user_id (load_alerts path ! p) = uid
           \<and> positions_of uid (load_alerts path) ! (k - 1) = p
           \<and> list_alerts uid path ! (k - 1) = load_alerts path ! p
           \<and> alert_off w uid k path =
               (True, save_alerts w ((load_alerts path)[p := (load_alerts path ! p)\<lparr>active := False\<rparr>]) path)"
proof -
  let ?items = "load_alerts path"
  let ?pos = "filter (\<lambda>i. user_id (?items ! i) = uid) [0..<length ?items]"
  have idx: "int k - 1 = int (k - 1)"
    using assms by auto
  have j: "k - 1 < length ?pos"
    using assms by (simp add: list_alerts_def owner_positions_length)
  then have "?pos ! (k - 1) < length ?items \<and> user_id (?items ! (?pos ! (k - 1))) = uid"
    by (rule positions_in_range)
  moreover have "deactivate_alert w uid (int (k - 1)) path =
      (True, save_alerts w (?items[?pos ! (k - 1) := (?items ! (?pos ! (k - 1)))\<lparr>active := False\<rparr>]) path)"
    using j by (simp add: deactivate_alert_def Let_def)
  moreover have "list_alerts uid path ! (k - 1) = ?items ! (?pos ! (k - 1))"
    unfolding list_alerts_def
    using j by (subst filter_eq_map_positions) simp
  ultimately show ?thesis
    unfolding alert_off_def idx positions_of_def by blast
qed

subsection \<open>Deactivation by ordinal\<close>

text \<open>
  C7. \<open>alert_off w uid k\<close> is \<open>deactivate(owner, k)\<close> with the ordinal counted from 1.
  When \<open>k\<close> exceeds the number of alerts of the owner (or is 0), the answer is not-found
  and the store is left as it was, with no write at all. When \<open>k\<close> is within range, the
  answer is found, and the collection written is the old one with \<open>active\<close> set to false
  in one record of this owner, all its other fields and all other records as they were;
  that record is the \<open>k\<close>-th of the owner's own list, so the owner's list changes at
  ordinal \<open>k\<close> only, and the list of every other owner is unchanged.
\<close>

theorem deactivate_by_ordinal:
  "(k = 0 \<or> length (list_alerts uid path) < k \<longrightarrow> alert_off w uid k path = (False, path))
   \<and> (1 \<le> k \<and> k \<le> length (list_alerts uid path) \<longrightarrow>
        (\<exists>p < length (load_alerts path).
           user_id (load_alerts path ! p) = uid
           \<and> alert_off WriteOk uid k path =
               (True, Holds (JList ((load_alerts path)[p := (load_alerts path ! p)\<lparr>active := False\<rparr>])))
           \<and> list_alerts uid (snd (alert_off WriteOk uid k path)) =
               (list_alerts uid path)[k - 1 := (list_alerts uid path ! (k - 1))\<lparr>active := False\<rparr>]
           \<and> (\<forall>u. u \<noteq> uid \<longrightarrow> list_alerts u (snd (alert_off WriteOk uid k path)) = list_alerts u path)))"
proof (intro conjI impI)
  assume "k = 0 \<or> length (list_alerts uid path) < k"
  then show "alert_off w uid k path = (False, path)"
    by (rule alert_off_out_of_range)
next
  let ?items = "load_alerts path"
  let ?mine = "list_alerts uid path"
  assume k: "1 \<le> k \<and> k \<le> length ?mine"
  with alert_off_in_range [of k uid path WriteOk]
  obtain p where p: "p < length ?items" "user_id (?items ! p) = uid"
    and pos: "positions_of uid ?items ! (k - 1) = p"
    and nth: "?mine ! (k - 1) = ?items ! p"
    and off: "alert_off WriteOk uid k path = (True, Holds (JList (?items[p := (?items ! p)\<lparr>active := False\<rparr>])))"
    by auto
  have jpos: "k - 1 < length (filter (\<lambda>i. user_id (?items ! i) = uid) [0..<length ?items])"
    using k by (auto simp add: list_alerts_def owner_positions_length)
  have upd: "filter (\<lambda>a. user_id a = uid) (?items[p := (?items ! p)\<lparr>active := False\<rparr>])
      = (filter (\<lambda>a. user_id a = uid) ?items)[k - 1 := (?items ! p)\<lparr>active := False\<rparr>]"
    using filter_update_at_position [OF jpos, of "(?items ! p)\<lparr>active := False\<rparr>"] p(2) pos
    by (simp add: positions_of_def)
  have mine: "list_alerts uid (snd (alert_off WriteOk uid k path)) =
      ?mine[k - 1 := (?mine ! (k - 1))\<lparr>active := False\<rparr>]"
    using nth by (simp add: off list_alerts_def upd)
  have others: "list_alerts u (snd (alert_off WriteOk uid k path)) = list_alerts u path" if "u \<noteq> uid" for u
    using filter_update_other [of p ?items "\<lambda>a. user_id a = u" "(?items ! p)\<lparr>active := False\<rparr>"] p that
    by (simp add: off list_alerts_def)
  show "\<exists>p < length ?items.
           user_id (?items ! p) = uid
           \<and> alert_off WriteOk uid k path =
               (True, Holds (JList (?items[p := (?items ! p)\<lparr>active := False\<rparr>])))
           \<and> list_alerts uid (snd (alert_off WriteOk uid k path)) =
               ?mine[k - 1 := (?mine ! (k - 1))\<lparr>active := False\<rparr>]
           \<and> (\<forall>u. u \<noteq> uid \<longrightarrow> list_alerts u (snd (alert_off WriteOk uid k path)) = list_alerts u path)"
    using p off mine others by blast
qed

lemmas store_defs = alert_off_def deactivate_alert_def list_alerts_def mk_alert_def three_alerts_def

theorem deactivate_by_ordinal_witness:
  "1 \<le> (2::nat) \<and> 2 \<le> length (list_alerts 7 (Holds (JList three_alerts)))
   \<and> alert_off WriteOk 7 2 (Holds (JList three_alerts)) =
       (True, Holds (JList [mk_alert 7 ''BTC'' ''ABOVE'' (Fin 65000) True,
                            mk_alert 9 ''ETH'' ''BELOW'' (Fin 3000) True,
                            mk_alert 7 ''SOL'' ''ABOVE'' (Fin 200) False]))
   \<and> list_alerts 9 (snd (alert_off WriteOk 7 2 (Holds (JList three_alerts))))
       = [mk_alert 9 ''ETH'' ''BELOW'' (Fin 3000) True]
   \<and> length (list_alerts 7 (Holds (JList three_alerts))) < 3
   \<and> alert_off (WriteFails Unreadable) 7 3 (Holds (JList three_alerts)) = (False, Holds (JList three_alerts))"
  using deactivate_by_ordinal [of 2 7 "Holds (JList three_alerts)" WriteOk]
    deactivate_by_ordinal [of 3 7 "Holds (JList three_alerts)" "WriteFails Unreadable"]
  by (simp add: store_defs)

text \<open>
  C10. The ordinals count all alerts of the owner, the inactive ones included:
  \<open>alert_off\<close> answers found exactly when \<open>1 \<le> k \<le>\<close> the length of the owner's full
  list. Deactivating never moves an alert of any user to another position (and so to
  another ordinal). Deactivating twice gives the answer and the store of deactivating
  once, and deactivating an alert that is already inactive answers found and writes the
  collection back as it was.
\<close>

theorem deactivate_stable_idempotent:
  "(fst (alert_off w uid k path) \<longleftrightarrow> 1 \<le> k \<and> k \<le> length (list_alerts uid path))
   \<and> positions_of u (load_alerts (snd (alert_off WriteOk uid k path))) = positions_of u (load_alerts path)
   \<and> alert_off WriteOk uid k (snd (alert_off WriteOk uid k path)) = alert_off WriteOk uid k path
   \<and> (1 \<le> k \<and> k \<le> length (list_alerts uid path) \<and> \<not> active (list_alerts uid path ! (k - 1)) \<longrightarrow>
        alert_off WriteOk uid k path = (True, Holds (JList (load_alerts path))))"
proof (cases "1 \<le> k \<and> k \<le> length (list_alerts uid path)")
  case False
  then have out: "k = 0 \<or> length (list_alerts uid path) < k"
    by auto
  then have "alert_off w uid k path = (False, path)" and "alert_off WriteOk uid k path = (False, path)"
    by (rule alert_off_out_of_range)+
  then show ?thesis
    using False by auto
next
  case True
  let ?items = "load_alerts path"
  from True alert_off_in_range [of k uid path w]
  have ok: "fst (alert_off w uid k path)"
    by auto
  from True alert_off_in_range [of k uid path WriteOk]
  obtain p where p: "p < length ?items" "user_id (?items ! p) = uid"
    and pos: "positions_of uid ?items ! (k - 1) = p"
    and nth: "list_alerts uid path ! (k - 1) = ?items ! p"
    and off: "alert_off WriteOk uid k path = (True, Holds (JList (?items[p := (?items ! p)\<lparr>active := False\<rparr>])))"
    by auto
  let ?items' = "?items[p := (?items ! p)\<lparr>active := False\<rparr>]"
  let ?path' = "Holds (JList ?items')"
  have same: "positions_of v ?items' = positions_of v ?items" for v
    by (rule positions_of_update) simp
  have len: "length (list_alerts uid ?path') = length (list_alerts uid path)"
    using same [of uid] by (simp add: list_alerts_def length_positions_of [symmetric])
  with True alert_off_in_range [of k uid ?path' WriteOk]
  obtain q where q: "positions_of uid ?items' ! (k - 1) = q"
    and off': "alert_off WriteOk uid k ?path' = (True, Holds (JList (?items'[q := (?items' ! q)\<lparr>active := False\<rparr>])))"
    by auto
  have "q = p"
    using q pos same [of uid] by simp
  then have again: "alert_off WriteOk uid k ?path' = (True, ?path')"
    using off' p(1) by simp
  have inactive: "alert_off WriteOk uid k path = (True, Holds (JList ?items))"
    if "\<not> active (list_alerts uid path ! (k - 1))"
  proof -
    from that nth have "(?items ! p)\<lparr>active := False\<rparr> = ?items ! p"
      by simp
    then show ?thesis
      using off by simp
  qed
  show ?thesis
    using True ok same [of u] again inactive by (simp add: off)
qed

theorem deactivate_stable_idempotent_witness:
  "1 \<le> (2::nat) \<and> 2 \<le> length (list_alerts 7 (Holds (JList (three_alerts[2 := mk_alert 7 ''SOL'' ''ABOVE'' (Fin 200) False]))))
   \<and> \<not> active (list_alerts 7 (Holds (JList (three_alerts[2 := mk_alert 7 ''SOL'' ''ABOVE'' (Fin 200) False]))) ! (2 - 1))
   \<and> alert_off WriteOk 7 2 (Holds (JList (three_alerts[2 := mk_alert 7 ''SOL'' ''ABOVE'' (Fin 200) False])))
       = (True, Holds (JList (three_alerts[2 := mk_alert 7 ''SOL'' ''ABOVE'' (Fin 200) False])))
   \<and> positions_of 7 (load_alerts (snd (alert_off WriteOk 7 1 (Holds (JList three_alerts))))) = [0, 2]
   \<and> positions_of 7 three_alerts = [0, 2]
   \<and> alert_off WriteOk 7 1 (snd (alert_off WriteOk 7 1 (Holds (JList three_alerts))))
       = alert_off WriteOk 7 1 (Holds (JList three_alerts))"
  using deactivate_stable_idempotent
      [of WriteOk 7 2 "Holds (JList (three_alerts[2 := mk_alert 7 ''SOL'' ''ABOVE'' (Fin 200) False]))" 7]
    deactivate_stable_idempotent [of WriteOk 7 1 "Holds (JList three_alerts)" 7]
  by (simp add: store_defs positions_of_def)

subsection \<open>The text of a new alert\<close>

lemmas parse_defs = parse_alert_input_def strip_def is_space_def upper_def upper_char_def
  replace_comma_def split_def py_float_def split_sign_def decimal_def mantissa_ok_def exponent_def
  is_digit_def digits_val_def digit_val_def COIN_IDS_def FX_PAIRS_def

lemma parse_alert_input_Some:
  assumes "parse_alert_input text = Some (symb, dir, tgt)"
  shows "symb \<in> {''BTC'', ''ETH'', ''SOL'', ''USDT'', ''USDUAH'', ''EURUAH''}
         \<and> dir \<in> {''ABOVE'', ''BELOW''}
         \<and> (\<exists>tok \<in> set (split (replace_comma (upper (strip text)))). py_float tok = Some tgt)"
proof -
  let ?ws = "split (replace_comma (upper (strip text)))"
  let ?parts = "if 4 \<le> length ?ws \<and> ?ws ! 0 \<in> {''USD'', ''EUR''} \<and> ?ws ! 1 = ''UAH''
                then (?ws ! 0 @ ?ws ! 1) # drop 2 ?ws else ?ws"
  from assms obtain target_s where parts: "?parts = [symb, dir, target_s]"
    and dir: "dir \<in> {''ABOVE'', ''BELOW''}"
    and tgt: "py_float target_s = Some tgt"
    and symb: "symb \<in> fst ` set COIN_IDS \<or> symb \<in> set FX_PAIRS"
    by (auto simp add: parse_alert_input_def Let_def split: if_splits list.splits option.splits)
  have "target_s \<in> set ?ws"
  proof (cases "4 \<le> length ?ws \<and> ?ws ! 0 \<in> {''USD'', ''EUR''} \<and> ?ws ! 1 = ''UAH''")
    case True
    with parts have "drop 2 ?ws = [dir, target_s]"
      by simp
    then have "target_s \<in> set (drop 2 ?ws)"
      by simp
    then show ?thesis
      by (rule in_set_dropD)
  next
    case False
    with parts have "?ws = [symb, dir, target_s]"
      by (simp split: if_splits)
    then show ?thesis
      by simp
  qed
  with tgt have "\<exists>tok \<in> set ?ws. py_float tok = Some tgt"
    by blast
  moreover from symb have "symb \<in> {''BTC'', ''ETH'', ''SOL'', ''USDT'', ''USDUAH'', ''EURUAH''}"
    by (auto simp add: COIN_IDS_def FX_PAIRS_def)
  ultimately show ?thesis
    using dir by blast
qed

lemma upper_known_symbol:
  "symb \<in> {''BTC'', ''ETH'', ''SOL'', ''USDT'', ''USDUAH'', ''EURUAH''} \<Longrightarrow> upper symb = symb"
  by (auto simp add: upper_def upper_char_def)

lemma upper_known_direction: "dir \<in> {''ABOVE'', ''BELOW''} \<Longrightarrow> upper dir = dir"
  by (auto simp add: upper_def upper_char_def)

text \<open>
  C9, as the code has it. An alert created through the dialogue has one of the six known
  symbols, the direction ABOVE or BELOW, and as target the value that \<open>float()\<close> gives
  to a word of the text (after trimming, upper-casing, and commas turned into points);
  it is appended to the collection as an active alert. The target is not tested for
  its sign or for being finite.
\<close>

theorem added_alert_fields:
  assumes "\<not> cancel (strip text)" and "parse_alert_input (strip text) = Some (symb, dir, tgt)"
  shows "alert_input cancel WriteOk now uid text path =
           Holds (JList (load_alerts path @
             [\<lparr>user_id = uid, symbol = symb, direction = dir, target = tgt, active = True, created_at = now\<rparr>]))
         \<and> symb \<in> {''BTC'', ''ETH'', ''SOL'', ''USDT'', ''USDUAH'', ''EURUAH''}
         \<and> dir \<in> {''ABOVE'', ''BELOW''}
         \<and> (\<exists>tok \<in> set (split (replace_comma (upper (strip (strip text))))). py_float tok = Some tgt)"
proof -
  from assms(2) have fields: "symb \<in> {''BTC'', ''ETH'', ''SOL'', ''USDT'', ''USDUAH'', ''EURUAH''}
      \<and> dir \<in> {''ABOVE'', ''BELOW''}
      \<and> (\<exists>tok \<in> set (split (replace_comma (upper (strip (strip text))))). py_float tok = Some tgt)"
    by (rule parse_alert_input_Some)
  then have "upper symb = symb" and "upper dir = dir"
    by (simp_all only: upper_known_symbol upper_known_direction)
  then have "alert_input cancel WriteOk now uid text path =
           Holds (JList (load_alerts path @
             [\<lparr>user_id = uid, symbol = symb, direction = dir, target = tgt, active = True, created_at = now\<rparr>]))"
    using assms by (simp add: alert_input_def add_alert_def)
  with fields show ?thesis
    by blast
qed

lemmas input_defs = alert_input_def add_alert_def cancel_words_def mk_alert_def

theorem added_alert_fields_witness:
  "\<not> cancel_words (strip '' btc above 65000 '')
   \<and> parse_alert_input (strip '' btc above 65000 '') = Some (''BTC'', ''ABOVE'', Fin 65000)
   \<and> alert_input cancel_words WriteOk ''2024-01-01T00:00:00'' 42 '' btc above 65000 '' Missing =
       Holds (JList [mk_alert 42 ''BTC'' ''ABOVE'' (Fin 65000) True])"
  using added_alert_fields [of cancel_words "'' btc above 65000 ''" "''BTC''" "''ABOVE''" "Fin 65000"
      "''2024-01-01T00:00:00''" 42 Missing]
  by (simp add: parse_defs input_defs load_alerts_def safe_read_json_def path_exists_def)

text \<open>
  C9 as stated fails: the dialogue stores the target -5, and the parser accepts the
  targets 0, NaN and infinity.
\<close>

theorem stored_target_not_positive_counterexample:
  "alert_input cancel_words WriteOk ''2024-01-01T00:00:00'' 42 ''BTC above -5'' Missing =
       Holds (JList [mk_alert 42 ''BTC'' ''ABOVE'' (Fin (- 5)) True])
   \<and> \<not> positive_finite (target (mk_alert 42 ''BTC'' ''ABOVE'' (Fin (- 5)) True))
   \<and> parse_alert_input ''btc below 0'' = Some (''BTC'', ''BELOW'', Fin 0) \<and> \<not> positive_finite (Fin 0)
   \<and> parse_alert_input ''eth above nan'' = Some (''ETH'', ''ABOVE'', NaN) \<and> \<not> positive_finite NaN
   \<and> parse_alert_input ''usd uah above inf'' = Some (''USDUAH'', ''ABOVE'', PInf) \<and> \<not> positive_finite PInf"
  by (simp add: parse_defs input_defs load_alerts_def safe_read_json_def path_exists_def)

subsection \<open>The two loops of the checker\<close>

lemma fetch_prices_events:
  "snd (fetch_prices e syms prices) = map Fetched (filter (\<lambda>s. s \<noteq> []) syms)"
  by (induction syms arbitrary: prices) (simp_all add: Let_def case_prod_beta)

lemma fetch_prices_get:
  "fst (fetch_prices e syms prices) t =
     (if t \<in> set syms \<and> t \<noteq> [] then Some (try_get_symbol_price e t) else prices t)"
  by (induction syms arbitrary: prices) (auto simp add: Let_def case_prod_beta)

lemma fetched_append [simp]: "fetched (xs @ ys) = fetched xs @ fetched ys"
  by (simp add: fetched_def)

lemma fetched_map_Fetched [simp]: "fetched (map Fetched syms) = syms"
  by (induction syms) (simp_all add: fetched_def)

lemma fetched_sends: "list_all is_send evs \<Longrightarrow> fetched evs = []"
  by (induction evs) (auto simp add: fetched_def elim: is_send.elims)

lemma check_alerts_sends: "list_all is_send (fst (check_alerts prices send items))"
  by (induction items arbitrary: send)
     (auto simp add: Let_def case_prod_beta split: option.splits sum.splits)

lemma check_alerts_completed:
  assumes "check_alerts prices send items = (evs, Inr (items', changed))"
  shows "items' = map (fire prices) items
         \<and> evs = map Sent (List.map_filter (check_one prices) items)
         \<and> changed = (\<exists>a \<in> set items. check_one prices a \<noteq> None)"
  using assms
proof (induction items arbitrary: send evs items' changed)
  case Nil
  then show ?case by simp
next
  case (Cons a rest)
  obtain evs0 r0 where rest: "check_alerts prices (send \<circ> Suc) rest = (evs0, r0)"
    by (cases "check_alerts prices (send \<circ> Suc) rest")
  show ?case
  proof (cases "check_one prices a")
    case None
    with Cons.prems rest obtain items0 changed0 where r0: "r0 = Inr (items0, changed0)"
      and res: "evs = evs0" "items' = a # items0" "changed = changed0"
      by (auto simp add: put_item_def split: sum.splits)
    from Cons.IH [OF rest [unfolded r0]] None res show ?thesis
      by (simp add: fire_def)
  next
    case (Some n)
    with Cons.prems rest obtain items0 changed0 where r0: "r0 = Inr (items0, changed0)"
      and res: "evs = Sent n # evs0" "items' = a\<lparr>active := False\<rparr> # items0" "changed = True"
      by (auto simp add: put_item_def split: sum.splits)
    from Cons.IH [OF rest [unfolded r0]] Some res show ?thesis
      by (simp add: fire_def)
  qed
qed

lemma check_alerts_delivered:
  assumes "\<forall>i. send i = Inr ()"
  shows "\<exists>evs items' changed. check_alerts prices send items = (evs, Inr (items', changed))"
  using assms
proof (induction items arbitrary: send)
  case Nil
  show ?case by auto
next
  case (Cons a rest)
  have "\<forall>i. (send \<circ> Suc) i = Inr ()"
    using Cons.prems by simp
  then have "\<exists>evs items' changed. check_alerts prices (send \<circ> Suc) rest = (evs, Inr (items', changed))"
    by (rule Cons.IH)
  then obtain evs items' changed
    where "check_alerts prices (send \<circ> Suc) rest = (evs, Inr (items', changed))"
    by blast
  moreover have "send 0 = Inr ()"
    using Cons.prems by simp
  ultimately show ?case
    by (auto simp add: put_item_def split: option.splits)
qed

lemma check_alerts_notified:
  "set (notified (fst (check_alerts prices send items))) \<subseteq> {n. \<exists>a \<in> set items. check_one prices a = Some n}"
  by (induction items arbitrary: send)
     (auto simp add: notified_def Let_def case_prod_beta split: option.splits sum.splits)

lemmas cycle_defs = alerts_checker_cycle_def active_symbols_def get_symbol_price_def
  try_get_symbol_price_def prices_get_def hit_def check_one_def put_item_def py_ge_def
  calm_env_def blocked_env_def mk_alert_def upper_def upper_char_def COIN_IDS_def

subsection \<open>A cycle of the checker\<close>

lemma cycle_unfold:
  "alerts_checker_cycle e path =
     (case check_alerts (cycle_prices e (load_alerts path)) (send_message e) (load_alerts path) of
        (sends, Inl err) \<Rightarrow>
          (map Fetched (filter (\<lambda>s. s \<noteq> []) (active_symbols (load_alerts path))) @ sends, path)
      | (sends, Inr (items', changed)) \<Rightarrow>
          if changed
          then (map Fetched (filter (\<lambda>s. s \<noteq> []) (active_symbols (load_alerts path))) @ sends @ [Saved items'],
                save_alerts (disk e) items' path)
          else (map Fetched (filter (\<lambda>s. s \<noteq> []) (active_symbols (load_alerts path))) @ sends, path))"
  by (simp add: alerts_checker_cycle_def cycle_prices_def Let_def case_prod_beta fetch_prices_events)

lemma fire_nothing:
  "\<forall>a \<in> set items. check_one prices a = None \<Longrightarrow> map (fire prices) items = items"
  by (induction items) (simp_all add: fire_def)

lemma cycle_cases:
  obtains (raised) sends err where
      "check_alerts (cycle_prices e (load_alerts path)) (send_message e) (load_alerts path) = (sends, Inl err)"
      "alerts_checker_cycle e path =
         (map Fetched (filter (\<lambda>s. s \<noteq> []) (active_symbols (load_alerts path))) @ sends, path)"
  | (quiet) sends where
      "check_alerts (cycle_prices e (load_alerts path)) (send_message e) (load_alerts path)
         = (sends, Inr (load_alerts path, False))"
      "alerts_checker_cycle e path =
         (map Fetched (filter (\<lambda>s. s \<noteq> []) (active_symbols (load_alerts path))) @ sends, path)"
  | (saved) sends items' where
      "check_alerts (cycle_prices e (load_alerts path)) (send_message e) (load_alerts path)
         = (sends, Inr (items', True))"
      "alerts_checker_cycle e path =
         (map Fetched (filter (\<lambda>s. s \<noteq> []) (active_symbols (load_alerts path))) @ sends @ [Saved items'],
          save_alerts (disk e) items' path)"
proof -
  let ?items = "load_alerts path"
  let ?prices = "cycle_prices e ?items"
  obtain sends r where run: "check_alerts ?prices (send_message e) ?items = (sends, r)"
    by (cases "check_alerts ?prices (send_message e) ?items")
  show thesis
  proof (cases r)
    case (Inl err)
    with run raised show ?thesis
      by (simp add: cycle_unfold)
  next
    case (Inr res)
    obtain items' changed where d: "res = (items', changed)"
      by (cases res)
    show ?thesis
    proof (cases changed)
      case True
      with run Inr d saved show ?thesis
        by (simp add: cycle_unfold)
    next
      case False
      from check_alerts_completed [OF run [unfolded Inr d]] False
      have all: "\<forall>a \<in> set ?items. check_one ?prices a = None" and items': "items' = map (fire ?prices) ?items"
        by auto
      from all have "map (fire ?prices) ?items = ?items"
        by (rule fire_nothing)
      with items' run Inr d False quiet show ?thesis
        by (simp add: cycle_unfold)
    qed
  qed
qed

lemma fetched_Saved [simp]: "fetched [Saved items] = []"
  by (simp add: fetched_def)

lemma cycle_fetched:
  "fetched (fst (alerts_checker_cycle e path)) = filter (\<lambda>s. s \<noteq> []) (active_symbols (load_alerts path))"
proof (cases rule: cycle_cases [of e path])
  case (raised sends err)
  have "list_all is_send (fst (check_alerts (cycle_prices e (load_alerts path)) (send_message e) (load_alerts path)))"
    by (rule check_alerts_sends)
  with raised(1) have "fetched sends = []"
    by (simp add: fetched_sends)
  with raised(2) show ?thesis by simp
next
  case (quiet sends)
  have "list_all is_send (fst (check_alerts (cycle_prices e (load_alerts path)) (send_message e) (load_alerts path)))"
    by (rule check_alerts_sends)
  with quiet(1) have "fetched sends = []"
    by (simp add: fetched_sends)
  with quiet(2) show ?thesis by simp
next
  case (saved sends items')
  have "list_all is_send (fst (check_alerts (cycle_prices e (load_alerts path)) (send_message e) (load_alerts path)))"
    by (rule check_alerts_sends)
  with saved(1) have "fetched sends = []"
    by (simp add: fetched_sends)
  with saved(2) show ?thesis by simp
qed

text \<open>
  C6. In one cycle no symbol is fetched twice, and the symbols fetched are exactly the
  symbols of the active alerts of the collection: a symbol that several active alerts
  share is fetched once, a symbol that only inactive alerts have is not fetched. The
  empty text, which the loop passes over as no symbol, is never fetched.
\<close>

theorem one_fetch_per_active_symbol:
  "distinct (fetched (fst (alerts_checker_cycle e path)))
   \<and> set (fetched (fst (alerts_checker_cycle e path))) =
       {s. s \<noteq> [] \<and> (\<exists>a \<in> set (load_alerts path). active a \<and> symbol a = s)}"
proof -
  have "distinct (filter (\<lambda>s. s \<noteq> []) (active_symbols (load_alerts path)))"
    by (simp add: active_symbols_def)
  moreover have "set (filter (\<lambda>s. s \<noteq> []) (active_symbols (load_alerts path))) =
      {s. s \<noteq> [] \<and> (\<exists>a \<in> set (load_alerts path). active a \<and> symbol a = s)}"
    by (auto simp add: active_symbols_def)
  ultimately show ?thesis
    by (simp only: cycle_fetched)
qed

theorem one_fetch_per_active_symbol_witness:
  "fetched (fst (alerts_checker_cycle (calm_env (Some (Fin 500))) (Holds (JList shared_symbol)))) = [''BTC'']
   \<and> distinct (fetched (fst (alerts_checker_cycle (calm_env (Some (Fin 500))) (Holds (JList shared_symbol)))))"
  using one_fetch_per_active_symbol [of "calm_env (Some (Fin 500))" "Holds (JList shared_symbol)"]
  by (simp add: cycle_defs shared_symbol_def fetched_def)

lemma check_one_Some:
  assumes "check_one prices a = Some n"
  shows "active a \<and> n_user n = user_id a \<and> n_symbol n = upper (symbol a)
         \<and> n_direction n = upper (direction a) \<and> n_target n = target a
         \<and> prices_get prices (upper (symbol a)) = Some (n_price n)
         \<and> hit (upper (direction a)) (n_price n) (target a)"
  using assms
  by (auto simp add: check_one_def Let_def split: if_splits option.splits)

lemma list_all_is_fetch [simp]: "list_all is_fetch (map Fetched syms)"
  by (induction syms) simp_all

lemma cycle_sends_from_active:
  assumes "check_alerts prices send items = (sends, r)" and "n \<in> set (notified sends)"
  shows "\<exists>a \<in> set items. active a \<and> user_id a = n_user n \<and> upper (symbol a) = n_symbol n
           \<and> upper (direction a) = n_direction n \<and> target a = n_target n"
proof -
  have "set (notified (fst (check_alerts prices send items))) \<subseteq> {n. \<exists>a \<in> set items. check_one prices a = Some n}"
    by (rule check_alerts_notified)
  with assms obtain a where "a \<in> set items" and "check_one prices a = Some n"
    by auto
  then show ?thesis
    using check_one_Some [of prices a n] by auto
qed

text \<open>
  C4, as the code has it. The events of a cycle are its fetches, then its sends, then
  at most one write of the whole collection, which is the last event. Every message of
  the cycle is sent before that write: when it is sent the store is still the one the
  cycle read, in which the alert of the message is active.
\<close>

theorem write_follows_sends:
  "\<exists>fs ss ws.
     fst (alerts_checker_cycle e path) = fs @ ss @ ws
     \<and> list_all is_fetch fs \<and> list_all is_send ss
     \<and> ((ws = [] \<and> snd (alerts_checker_cycle e path) = path)
         \<or> (\<exists>items'. ws = [Saved items'] \<and> snd (alerts_checker_cycle e path) = save_alerts (disk e) items' path))
     \<and> (\<forall>n \<in> set (notified ss).
           \<exists>a \<in> set (load_alerts path).
             active a \<and> user_id a = n_user n \<and> upper (symbol a) = n_symbol n
             \<and> upper (direction a) = n_direction n \<and> target a = n_target n)"
proof -
  let ?items = "load_alerts path"
  let ?prices = "cycle_prices e ?items"
  let ?fs = "map Fetched (filter (\<lambda>s. s \<noteq> []) (active_symbols ?items))"
  have sends: "list_all is_send (fst (check_alerts ?prices (send_message e) ?items))"
    by (rule check_alerts_sends)
  show ?thesis
  proof (cases rule: cycle_cases [of e path])
    case (raised ss err)
    from raised(1) sends have "list_all is_send ss" by simp
    moreover have "fst (alerts_checker_cycle e path) = ?fs @ ss @ []"
      and "snd (alerts_checker_cycle e path) = path"
      using raised(2) by simp_all
    moreover note cycle_sends_from_active [OF raised(1)]
    ultimately show ?thesis
      by (intro exI [of _ ?fs] exI [of _ ss] exI [of _ "[]"]) simp
  next
    case (quiet ss)
    from quiet(1) sends have "list_all is_send ss" by simp
    moreover have "fst (alerts_checker_cycle e path) = ?fs @ ss @ []"
      and "snd (alerts_checker_cycle e path) = path"
      using quiet(2) by simp_all
    moreover note cycle_sends_from_active [OF quiet(1)]
    ultimately show ?thesis
      by (intro exI [of _ ?fs] exI [of _ ss] exI [of _ "[]"]) simp
  next
    case (saved ss items')
    from saved(1) sends have "list_all is_send ss" by simp
    moreover have "fst (alerts_checker_cycle e path) = ?fs @ ss @ [Saved items']"
      and "snd (alerts_checker_cycle e path) = save_alerts (disk e) items' path"
      using saved(2) by simp_all
    moreover note cycle_sends_from_active [OF saved(1)]
    ultimately show ?thesis
      by (intro exI [of _ ?fs] exI [of _ ss] exI [of _ "[Saved items']"]) simp
  qed
qed

text \<open>
  C4 as stated fails: in a cycle with one alert that fires, the message is sent before
  the collection is written.
\<close>

theorem write_before_sends_counterexample:
  "alerts_checker_cycle (calm_env (Some (Fin 65500))) (Holds (JList [mk_alert 42 ''BTC'' ''ABOVE'' (Fin 65000) True])) =
     ([Fetched ''BTC'',
       Sent (Notification 42 ''BTC'' ''ABOVE'' (Fin 65000) (Fin 65500)),
       Saved [mk_alert 42 ''BTC'' ''ABOVE'' (Fin 65000) False]],
      Holds (JList [mk_alert 42 ''BTC'' ''ABOVE'' (Fin 65000) False]))"
  by (simp add: cycle_defs)

theorem write_follows_sends_witness:
  "fst (alerts_checker_cycle (blocked_env (Some (Fin 65500)) 5) (Holds (JList two_buyers))) =
     [Fetched ''BTC'', Fetched ''ETH'']
     @ [Sent (Notification 1 ''BTC'' ''ABOVE'' (Fin 65000) (Fin 65500)),
        Sent (Notification 2 ''BTC'' ''ABOVE'' (Fin 65000) (Fin 65500)),
        Sent (Notification 3 ''ETH'' ''BELOW'' (Fin 70000) (Fin 65500))]
     @ [Saved [mk_alert 1 ''BTC'' ''ABOVE'' (Fin 65000) False,
               mk_alert 2 ''BTC'' ''ABOVE'' (Fin 65000) False,
               mk_alert 3 ''ETH'' ''BELOW'' (Fin 70000) False]]
   \<and> (\<exists>fs ss ws.
         fst (alerts_checker_cycle (blocked_env (Some (Fin 65500)) 5) (Holds (JList two_buyers))) = fs @ ss @ ws
         \<and> list_all is_fetch fs \<and> list_all is_send ss)"
proof -
  have "fst (alerts_checker_cycle (blocked_env (Some (Fin 65500)) 5) (Holds (JList two_buyers))) =
     [Fetched ''BTC'', Fetched ''ETH'']
     @ [Sent (Notification 1 ''BTC'' ''ABOVE'' (Fin 65000) (Fin 65500)),
        Sent (Notification 2 ''BTC'' ''ABOVE'' (Fin 65000) (Fin 65500)),
        Sent (Notification 3 ''ETH'' ''BELOW'' (Fin 70000) (Fin 65500))]
     @ [Saved [mk_alert 1 ''BTC'' ''ABOVE'' (Fin 65000) False,
               mk_alert 2 ''BTC'' ''ABOVE'' (Fin 65000) False,
               mk_alert 3 ''ETH'' ''BELOW'' (Fin 70000) False]]"
    by (simp add: cycle_defs two_buyers_def)
  moreover from write_follows_sends [of "blocked_env (Some (Fin 65500)) 5" "Holds (JList two_buyers)"]
  have "\<exists>fs ss ws.
         fst (alerts_checker_cycle (blocked_env (Some (Fin 65500)) 5) (Holds (JList two_buyers))) = fs @ ss @ ws
         \<and> list_all is_fetch fs \<and> list_all is_send ss"
    by blast
  ultimately show ?thesis
    by (rule conjI)
qed

text \<open>
  C3 on the code. Three active alerts all hit; the message for the second one raises.
  The cycle ends there: the third alert is not looked at, nothing is written, and the
  first alert, whose message was delivered, is still active in the store.
\<close>

theorem failed_send_skips_write:
  "alerts_checker_cycle (blocked_env (Some (Fin 65500)) 1) (Holds (JList two_buyers)) =
     ([Fetched ''BTC'', Fetched ''ETH'',
       Sent (Notification 1 ''BTC'' ''ABOVE'' (Fin 65000) (Fin 65500)),
       SendRaised (Notification 2 ''BTC'' ''ABOVE'' (Fin 65000) (Fin 65500))],
      Holds (JList two_buyers))"
  by (simp add: cycle_defs two_buyers_def)

text \<open>
  C2 on the code. In the same surroundings the next cycle finds the first alert active
  again and sends its message a second time.
\<close>

theorem delivered_alert_fires_again:
  "alerts_checker [blocked_env (Some (Fin 65500)) 1, blocked_env (Some (Fin 65500)) 1] (Holds (JList two_buyers)) =
     ([Fetched ''BTC'', Fetched ''ETH'',
       Sent (Notification 1 ''BTC'' ''ABOVE'' (Fin 65000) (Fin 65500)),
       SendRaised (Notification 2 ''BTC'' ''ABOVE'' (Fin 65000) (Fin 65500)),
       Fetched ''BTC'', Fetched ''ETH'',
       Sent (Notification 1 ''BTC'' ''ABOVE'' (Fin 65000) (Fin 65500)),
       SendRaised (Notification 2 ''BTC'' ''ABOVE'' (Fin 65000) (Fin 65500))],
      Holds (JList two_buyers))"
  by (simp add: cycle_defs two_buyers_def)

lemma py_le_refl: "x \<noteq> NaN \<Longrightarrow> py_le x x"
  by (cases x) simp_all

lemma notified_map_Sent [simp]: "notified (map Sent ns) = ns"
  by (induction ns) (simp_all add: notified_def)

lemma check_one_fires:
  assumes "active a" and "prices_get prices (upper (symbol a)) = Some cur"
  shows "check_one prices a \<noteq> None \<longleftrightarrow> hit (upper (direction a)) cur (target a)"
  using assms by (simp add: check_one_def Let_def)

text \<open>
  C1. For an active alert whose symbol has a price in the cycle, the body of the loop
  fires (it yields the notification, and the alert becomes inactive in memory) exactly
  when the direction is ABOVE and the price is at least the target, or the direction is
  BELOW and the price is at most the target; for finite values these are the
  comparisons of the numbers. A price equal to the target fires in both directions.
  A loop that runs to its end has made inactive exactly the alerts that fire, and has
  sent exactly their notifications.
\<close>

theorem fires_iff_threshold_reached:
  "(active a \<and> prices_get prices (upper (symbol a)) = Some cur \<longrightarrow>
      (check_one prices a \<noteq> None \<longleftrightarrow>
         (upper (direction a) = ''ABOVE'' \<and> py_ge cur (target a))
         \<or> (upper (direction a) = ''BELOW'' \<and> py_le cur (target a)))
      \<and> (\<forall>p t. cur = Fin p \<and> target a = Fin t \<longrightarrow>
            (check_one prices a \<noteq> None \<longleftrightarrow>
               (upper (direction a) = ''ABOVE'' \<and> t \<le> p) \<or> (upper (direction a) = ''BELOW'' \<and> p \<le> t)))
      \<and> (py_eq cur (target a) \<and> upper (direction a) \<in> {''ABOVE'', ''BELOW''} \<longrightarrow> check_one prices a \<noteq> None))
   \<and> active (fire prices a) = (active a \<and> check_one prices a = None)
   \<and> (check_alerts prices send items = (evs, Inr (items', changed)) \<longrightarrow>
        items' = map (fire prices) items \<and> notified evs = List.map_filter (check_one prices) items)"
proof (intro conjI impI)
  assume a: "active a \<and> prices_get prices (upper (symbol a)) = Some cur"
  then have fires: "check_one prices a \<noteq> None \<longleftrightarrow> hit (upper (direction a)) cur (target a)"
    using check_one_fires [of a prices cur] by blast
  show "check_one prices a \<noteq> None \<longleftrightarrow>
         (upper (direction a) = ''ABOVE'' \<and> py_ge cur (target a))
         \<or> (upper (direction a) = ''BELOW'' \<and> py_le cur (target a))"
    unfolding fires by (simp add: hit_def)
  show "\<forall>p t. cur = Fin p \<and> target a = Fin t \<longrightarrow>
            (check_one prices a \<noteq> None \<longleftrightarrow>
               (upper (direction a) = ''ABOVE'' \<and> t \<le> p) \<or> (upper (direction a) = ''BELOW'' \<and> p \<le> t))"
    unfolding fires by (simp add: hit_def py_ge_def)
  show "check_one prices a \<noteq> None" if "py_eq cur (target a) \<and> upper (direction a) \<in> {''ABOVE'', ''BELOW''}"
  proof -
    from that have "py_le cur (target a)" and "py_ge cur (target a)"
      by (auto simp add: py_eq_def py_ge_def py_le_refl)
    with that show ?thesis
      unfolding fires by (auto simp add: hit_def)
  qed
next
  show "active (fire prices a) = (active a \<and> check_one prices a = None)"
    by (simp add: fire_def split: option.splits)
next
  assume "check_alerts prices send items = (evs, Inr (items', changed))"
  then have "items' = map (fire prices) items \<and> evs = map Sent (List.map_filter (check_one prices) items)"
    using check_alerts_completed by blast
  then show "items' = map (fire prices) items" and "notified evs = List.map_filter (check_one prices) items"
    by simp_all
qed

theorem fires_iff_threshold_reached_witness:
  "active (mk_alert 42 ''BTC'' ''ABOVE'' (Fin 65000) True)
   \<and> prices_get [''BTC'' \<mapsto> Some (Fin 65000)] (upper (symbol (mk_alert 42 ''BTC'' ''ABOVE'' (Fin 65000) True)))
       = Some (Fin 65000)
   \<and> py_eq (Fin 65000) (target (mk_alert 42 ''BTC'' ''ABOVE'' (Fin 65000) True))
   \<and> check_one [''BTC'' \<mapsto> Some (Fin 65000)] (mk_alert 42 ''BTC'' ''ABOVE'' (Fin 65000) True)
       = Some (Notification 42 ''BTC'' ''ABOVE'' (Fin 65000) (Fin 65000))
   \<and> check_one [''BTC'' \<mapsto> Some (Fin 65000)] (mk_alert 42 ''BTC'' ''BELOW'' (Fin 65000) True)
       = Some (Notification 42 ''BTC'' ''BELOW'' (Fin 65000) (Fin 65000))
   \<and> check_one [''BTC'' \<mapsto> Some (Fin 64000)] (mk_alert 42 ''BTC'' ''ABOVE'' (Fin 65000) True) = None
   \<and> check_one [''BTC'' \<mapsto> Some (Fin 65500)] (mk_alert 42 ''BTC'' ''BELOW'' (Fin 65000) True) = None"
  using fires_iff_threshold_reached [of "mk_alert 42 ''BTC'' ''ABOVE'' (Fin 65000) True"
      "[''BTC'' \<mapsto> Some (Fin 65000)]" "Fin 65000"]
  by (simp add: cycle_defs py_eq_def Let_def)

subsection \<open>A fetch that fails\<close>

lemma cycle_prices_get:
  "prices_get (cycle_prices e items) t =
     (if t \<in> set (active_symbols items) \<and> t \<noteq> [] then try_get_symbol_price e t else None)"
  by (simp add: cycle_prices_def prices_get_def fetch_prices_get)

lemma fire_unpriced:
  "prices_get prices (upper (symbol a)) = None \<Longrightarrow> fire prices a = a"
  by (simp add: fire_def check_one_def Let_def)

lemma cycle_store:
  assumes "disk e = WriteOk"
  shows "load_alerts (snd (alerts_checker_cycle e path)) = load_alerts path
         \<or> load_alerts (snd (alerts_checker_cycle e path))
             = map (fire (cycle_prices e (load_alerts path))) (load_alerts path)"
proof (cases rule: cycle_cases [of e path])
  case (raised sends err)
  then show ?thesis by simp
next
  case (quiet sends)
  then show ?thesis by simp
next
  case (saved sends items')
  from check_alerts_completed [OF saved(1)] saved(2) assms show ?thesis
    by simp
qed

lemma cycle_store_delivered:
  assumes "disk e = WriteOk" and "\<forall>i. send_message e i = Inr ()"
  shows "load_alerts (snd (alerts_checker_cycle e path))
           = map (fire (cycle_prices e (load_alerts path))) (load_alerts path)"
proof (cases rule: cycle_cases [of e path])
  case (raised sends err)
  with check_alerts_delivered [OF assms(2), of "cycle_prices e (load_alerts path)" "load_alerts path"]
  show ?thesis by simp
next
  case (quiet sends)
  from check_alerts_completed [OF quiet(1)] quiet(2) show ?thesis
    by simp
next
  case (saved sends items')
  from check_alerts_completed [OF saved(1)] saved(2) assms(1) show ?thesis
    by simp
qed

lemma cycle_notified:
  assumes "n \<in> set (notified (fst (alerts_checker_cycle e path)))"
  shows "\<exists>a \<in> set (load_alerts path). check_one (cycle_prices e (load_alerts path)) a = Some n"
proof -
  let ?run = "check_alerts (cycle_prices e (load_alerts path)) (send_message e) (load_alerts path)"
  have sub: "set (notified (fst ?run)) \<subseteq> {n. \<exists>a \<in> set (load_alerts path). check_one (cycle_prices e (load_alerts path)) a = Some n}"
    by (rule check_alerts_notified)
  have "notified (fst (alerts_checker_cycle e path)) = notified (fst ?run)"
    by (cases rule: cycle_cases [of e path]) (simp_all add: notified_def)
  with assms sub show ?thesis by auto
qed

lemma cycle_fetched_iff:
  "s \<in> set (fetched (fst (alerts_checker_cycle e path)))
     \<longleftrightarrow> s \<noteq> [] \<and> (\<exists>a \<in> set (load_alerts path). active a \<and> symbol a = s)"
  by (auto simp add: cycle_fetched active_symbols_def)

text \<open>
  C5. Let the fetch of a symbol \<open>s\<close> fail in a cycle (the call raises, or the service
  has no price), where \<open>s\<close> is a normalized symbol that an active alert has, and let
  the disk take the write of the cycle. Then \<open>s\<close> was fetched; every alert on \<open>s\<close> is in
  the store after the cycle as it was before, still active if it was; no message of
  the cycle is about \<open>s\<close>; every other fetched symbol has in the cycle the price its
  own fetch gave, and when no send raises every alert ends the cycle as the evaluator
  decides on those prices; and the next cycle, in any surroundings, fetches \<open>s\<close> again.
\<close>

theorem failed_fetch_keeps_alerts:
  assumes failed: "(\<exists>err. get_symbol_price e s = Inl err) \<or> get_symbol_price e s = Inr None"
    and writes: "disk e = WriteOk"
    and norm: "upper s = s" "s \<noteq> []"
    and on_s: "\<exists>a \<in> set (load_alerts path). active a \<and> symbol a = s"
  shows "s \<in> set (fetched (fst (alerts_checker_cycle e path)))
    \<and> length (load_alerts (snd (alerts_checker_cycle e path))) = length (load_alerts path)
    \<and> (\<forall>i < length (load_alerts path). upper (symbol (load_alerts path ! i)) = s \<longrightarrow>
          load_alerts (snd (alerts_checker_cycle e path)) ! i = load_alerts path ! i)
    \<and> (\<forall>n \<in> set (notified (fst (alerts_checker_cycle e path))). n_symbol n \<noteq> s)
    \<and> (\<forall>t. t \<in> set (fetched (fst (alerts_checker_cycle e path))) \<longrightarrow>
          prices_get (cycle_prices e (load_alerts path)) t = try_get_symbol_price e t)
    \<and> ((\<forall>i. send_message e i = Inr ()) \<longrightarrow>
          load_alerts (snd (alerts_checker_cycle e path))
            = map (fire (cycle_prices e (load_alerts path))) (load_alerts path))
    \<and> (\<forall>e'. s \<in> set (fetched (fst (alerts_checker_cycle e' (snd (alerts_checker_cycle e path))))))"
proof -
  let ?items = "load_alerts path"
  let ?prices = "cycle_prices e ?items"
  let ?path' = "snd (alerts_checker_cycle e path)"
  let ?items' = "load_alerts ?path'"
  from failed have "try_get_symbol_price e s = None"
    by (auto simp add: try_get_symbol_price_def)
  then have unpriced: "prices_get ?prices s = None"
    by (simp add: cycle_prices_get)
  have fetched_now: "s \<in> set (fetched (fst (alerts_checker_cycle e path)))"
    using on_s norm(2) by (simp add: cycle_fetched_iff)
  have kept: "fire ?prices (?items ! i) = ?items ! i" if "upper (symbol (?items ! i)) = s" for i
    using that unpriced by (simp add: fire_unpriced)
  have len: "length ?items' = length ?items"
    using cycle_store [OF writes, of path] by auto
  have same: "?items' ! i = ?items ! i" if "i < length ?items" and "upper (symbol (?items ! i)) = s" for i
    using cycle_store [OF writes, of path] that kept [of i] by auto
  have quiet: "n_symbol n \<noteq> s" if "n \<in> set (notified (fst (alerts_checker_cycle e path)))" for n
  proof
    assume s: "n_symbol n = s"
    from that obtain a where "check_one ?prices a = Some n"
      using cycle_notified by blast
    then have "prices_get ?prices (n_symbol n) = Some (n_price n)"
      using check_one_Some [of ?prices a n] by simp
    with s unpriced show False by simp
  qed
  have others: "prices_get ?prices t = try_get_symbol_price e t"
    if "t \<in> set (fetched (fst (alerts_checker_cycle e path)))" for t
    using that by (simp add: cycle_fetched cycle_prices_get)
  have delivered: "?items' = map (fire ?prices) ?items" if "\<forall>i. send_message e i = Inr ()"
    using writes that by (rule cycle_store_delivered)
  have again: "s \<in> set (fetched (fst (alerts_checker_cycle e' ?path')))" for e'
  proof -
    from on_s obtain a where a: "a \<in> set ?items" "active a" "symbol a = s"
      by blast
    then obtain i where i: "i < length ?items" "?items ! i = a"
      by (auto simp add: in_set_conv_nth)
    with a norm(1) have "?items' ! i = a"
      using same [of i] by simp
    with i(1) len have "a \<in> set ?items'"
      by (metis nth_mem)
    with a norm(2) show ?thesis
      by (auto simp add: cycle_fetched_iff)
  qed
  show ?thesis
    using fetched_now len same quiet others delivered again by blast
qed

lemmas rate_defs = cycle_defs coin_and_rate_def fetched_def notified_def fire_def cycle_prices_def

theorem failed_fetch_keeps_alerts_witness:
  "get_symbol_price (calm_env (Some (Fin 65500))) ''USDUAH'' = Inr None
   \<and> disk (calm_env (Some (Fin 65500))) = WriteOk \<and> upper ''USDUAH'' = ''USDUAH'' \<and> ''USDUAH'' \<noteq> []
   \<and> active (coin_and_rate ! 1) \<and> symbol (coin_and_rate ! 1) = ''USDUAH''
   \<and> alerts_checker_cycle (calm_env (Some (Fin 65500))) (Holds (JList coin_and_rate)) =
       ([Fetched ''BTC'', Fetched ''USDUAH'', Sent (Notification 1 ''BTC'' ''ABOVE'' (Fin 65000) (Fin 65500)),
         Saved [mk_alert 1 ''BTC'' ''ABOVE'' (Fin 65000) False, mk_alert 2 ''USDUAH'' ''ABOVE'' (Fin 42) True]],
        Holds (JList [mk_alert 1 ''BTC'' ''ABOVE'' (Fin 65000) False, mk_alert 2 ''USDUAH'' ''ABOVE'' (Fin 42) True]))
   \<and> ''USDUAH'' \<in> set (fetched (fst (alerts_checker_cycle (calm_env None)
         (snd (alerts_checker_cycle (calm_env (Some (Fin 65500))) (Holds (JList coin_and_rate)))))))"
proof -
  have run: "alerts_checker_cycle (calm_env (Some (Fin 65500))) (Holds (JList coin_and_rate)) =
       ([Fetched ''BTC'', Fetched ''USDUAH'', Sent (Notification 1 ''BTC'' ''ABOVE'' (Fin 65000) (Fin 65500)),
         Saved [mk_alert 1 ''BTC'' ''ABOVE'' (Fin 65000) False, mk_alert 2 ''USDUAH'' ''ABOVE'' (Fin 42) True]],
        Holds (JList [mk_alert 1 ''BTC'' ''ABOVE'' (Fin 65000) False, mk_alert 2 ''USDUAH'' ''ABOVE'' (Fin 42) True]))"
    by (simp add: rate_defs)
  have h1: "(\<exists>err. get_symbol_price (calm_env (Some (Fin 65500))) ''USDUAH'' = Inl err)
      \<or> get_symbol_price (calm_env (Some (Fin 65500))) ''USDUAH'' = Inr None"
    by (simp add: rate_defs)
  have h2: "disk (calm_env (Some (Fin 65500))) = WriteOk"
    by (simp add: calm_env_def)
  have h3: "upper ''USDUAH'' = ''USDUAH''" and h4: "''USDUAH'' \<noteq> []"
    by (simp_all add: upper_def upper_char_def)
  have h5: "\<exists>a \<in> set (load_alerts (Holds (JList coin_and_rate))). active a \<and> symbol a = ''USDUAH''"
    by (simp add: coin_and_rate_def mk_alert_def)
  from failed_fetch_keeps_alerts [OF h1 h2 h3 h4 h5]
  have "''USDUAH'' \<in> set (fetched (fst (alerts_checker_cycle (calm_env None)
         (snd (alerts_checker_cycle (calm_env (Some (Fin 65500))) (Holds (JList coin_and_rate)))))))"
    by blast
  with run h2 h3 h4 show ?thesis
    by (simp add: rate_defs)
qed

subsection \<open>The flag of an alert\<close>

text \<open>
  With a disk that takes the writes, no operation sets \<open>active\<close> back to true: an alert
  that is active after a cycle or a deactivation was active before, and adding an alert
  leaves the others as they are.
\<close>

lemma active_fire: "active (fire prices a) \<Longrightarrow> active a"
  by (simp add: fire_def split: option.splits)

lemma active_never_set_again:
  assumes "i < length (load_alerts path)" and "disk e = WriteOk"
  shows "(active (load_alerts (snd (alerts_checker_cycle e path)) ! i) \<longrightarrow> active (load_alerts path ! i))
         \<and> (active (load_alerts (snd (alert_off WriteOk uid k path)) ! i) \<longrightarrow> active (load_alerts path ! i))
         \<and> load_alerts (add_alert WriteOk now uid symb dir tgt path) ! i = load_alerts path ! i"
proof (intro conjI impI)
  assume "active (load_alerts (snd (alerts_checker_cycle e path)) ! i)"
  with cycle_store [OF assms(2), of path] assms(1) show "active (load_alerts path ! i)"
    by (auto dest: active_fire)
next
  assume on: "active (load_alerts (snd (alert_off WriteOk uid k path)) ! i)"
  show "active (load_alerts path ! i)"
  proof (cases "1 \<le> k \<and> k \<le> length (list_alerts uid path)")
    case True
    with alert_off_in_range [of k uid path WriteOk] obtain p where
      "alert_off WriteOk uid k path =
         (True, Holds (JList ((load_alerts path)[p := (load_alerts path ! p)\<lparr>active := False\<rparr>])))"
      by auto
    with on assms(1) show ?thesis
      by (cases "i = p") simp_all
  next
    case False
    then have "k = 0 \<or> length (list_alerts uid path) < k"
      by auto
    then have "alert_off WriteOk uid k path = (False, path)"
      by (rule alert_off_out_of_range)
    with on show ?thesis by simp
  qed
next
  show "load_alerts (add_alert WriteOk now uid symb dir tgt path) ! i = load_alerts path ! i"
    using assms(1) by (simp add: add_alert_def nth_append)
qed

end
